theory Spec2Isabelle
  imports Complex_Main "HOL-Library.Multiset" "HOL-Library.Finite_Map"
begin

section \<open>Data model of \<^verbatim>\<open>flurs/base.py\<close>\<close>

text \<open>
  Modelled from the spec: the value objects \<^verbatim>\<open>User\<close> and \<^verbatim>\<open>Item\<close> (their classes are
  not part of \<^verbatim>\<open>base.py\<close>) each have "an \<^verbatim>\<open>index\<close> (unique integer)" and attributes that
  are opaque to the core.  The methods of \<^verbatim>\<open>Recommender\<close> read nothing but
  \<^verbatim>\<open>user.index\<close> and \<^verbatim>\<open>item.index\<close>, so the records carry that field only.
\<close>

record user =
  index :: int

record item =
  index :: int

text \<open>
  The per-entity records stored by the registry are Python dictionaries from attribute
  names to values.  The only value the base class ever stores is the set \<^verbatim>\<open>set()\<close> of
  observed item indices, so a stored record is a finite map from names to finite sets of
  item indices: \<^verbatim>\<open>{'observed': set()}\<close> for a user and \<^verbatim>\<open>{}\<close> for an item.
\<close>

type_synonym entry = "(string, int fset) fmap"

text \<open>
  The instance attributes set up by \<^verbatim>\<open>__init__\<close>.  Python dictionaries are finite, hence
  finite maps; Python integers are unbounded, hence \<^typ>\<open>int\<close>.
\<close>

record recommender =
  n_user :: int
  users :: "(int, entry) fmap"
  n_item :: int
  items :: "(int, entry) fmap"

text \<open>
  Exceptions a call can raise.  The only one that the code of \<^verbatim>\<open>base.py\<close> can trigger is
  numpy's \<^verbatim>\<open>IndexError\<close> for an index array that points outside the indexed array.
\<close>

datatype error = IndexError

text \<open>
  A method call on \<^verbatim>\<open>self\<close> either raises or returns a value, and leaves \<^verbatim>\<open>self\<close> in some
  state: the model of a method maps the state before the call and the arguments to the
  outcome and the state after the call.
\<close>

type_synonym 'r outcome = "(error + 'r) \<times> recommender"

section \<open>Entity registry\<close>

text \<open>\<^verbatim>\<open>__init__\<close>: both counters are 0 and both dictionaries are empty.\<close>

definition init :: recommender where
  "init = \<lparr>n_user = 0, users = fmempty, n_item = 0, items = fmempty\<rparr>"

text \<open>\<^verbatim>\<open>return u not in self.users\<close>\<close>

definition is_new_user :: "recommender \<Rightarrow> int \<Rightarrow> bool outcome" where
  "is_new_user self u = (Inr (u |\<notin>| fmdom (users self)), self)"

text \<open>
  \<^verbatim>\<open>self.users[user.index] = {'observed': set()}; self.n_user += 1\<close>.
  The item assignment of a dictionary stores the value under the key whether or not the
  key is present; the method returns \<^verbatim>\<open>None\<close>.  The method is marked abstract and has
  this body, which is what a concrete recommender runs when it calls the method of the
  base class; the same holds for \<^verbatim>\<open>add_item\<close>.
\<close>

definition add_user :: "recommender \<Rightarrow> user \<Rightarrow> unit outcome" where
  "add_user self usr =
     (let self = self\<lparr>users := fmupd (user.index usr) (fmupd ''observed'' {||} fmempty) (users self)\<rparr>;
          self = self\<lparr>n_user := n_user self + 1\<rparr>
      in (Inr (), self))"

text \<open>\<^verbatim>\<open>return i not in self.items\<close>\<close>

definition is_new_item :: "recommender \<Rightarrow> int \<Rightarrow> bool outcome" where
  "is_new_item self i = (Inr (i |\<notin>| fmdom (items self)), self)"

text \<open>\<^verbatim>\<open>self.items[item.index] = {}; self.n_item += 1\<close>\<close>

definition add_item :: "recommender \<Rightarrow> item \<Rightarrow> unit outcome" where
  "add_item self itm =
     (let self = self\<lparr>items := fmupd (item.index itm) fmempty (items self)\<rparr>;
          self = self\<lparr>n_item := n_item self + 1\<rparr>
      in (Inr (), self))"

section \<open>Ranking\<close>

text \<open>
  \<^verbatim>\<open>np.argsort\<close> is numpy library code, not code of this repository, and it is a
  parameter of the model: a function \<open>argsort\<close> from an array to an array of positions.
  What numpy documents of it is that \<^verbatim>\<open>np.argsort(a)\<close> "returns the indices that would
  sort" \<^verbatim>\<open>a\<close>: the positions \<open>0, \<dots>, n - 1\<close>, each once, arranged so that the elements read
  at them are in ascending order.  \<open>is_argsort a p\<close> says that \<open>p\<close> is such an arrangement
  for \<open>a\<close>.  \<^verbatim>\<open>scores2recos\<close> passes no \<^verbatim>\<open>kind\<close>, and for the default kind numpy leaves the
  order among equal elements open, so nothing more is assumed of \<open>argsort\<close>.  Scores are
  taken from a linear order: finite floating-point numbers compare like the reals they
  denote.
\<close>

definition is_argsort :: "'s::linorder list \<Rightarrow> nat list \<Rightarrow> bool" where
  "is_argsort a p \<longleftrightarrow> mset p = mset [0..<length a] \<and> sorted (map (\<lambda>i. a ! i) p)"

text \<open>
  One function that meets the description, used where a concrete \<open>argsort\<close> is needed:
  the stable one (\<^verbatim>\<open>kind='stable'\<close>), an insertion sort of the positions by the element
  read at them, which keeps the positions of equal elements in ascending order.
\<close>

definition stable_argsort :: "'s::linorder list \<Rightarrow> nat list" where
  "stable_argsort a = sort_key (\<lambda>i. a ! i) [0..<length a]"

text \<open>
  Indexing a one-dimensional numpy array with an array of non-negative positions,
  \<^verbatim>\<open>a[idx]\<close>: a new array that holds \<^verbatim>\<open>a[i]\<close> for each \<^verbatim>\<open>i\<close> of \<^verbatim>\<open>idx\<close>, in the order of
  \<^verbatim>\<open>idx\<close>; \<^verbatim>\<open>IndexError\<close> when some position is not below the length of \<^verbatim>\<open>a\<close>.
\<close>

fun fancy_index :: "'a list \<Rightarrow> nat list \<Rightarrow> error + 'a list" where
  "fancy_index a [] = Inr []"
| "fancy_index a (i # idx) =
     (if i < length a
      then (case fancy_index a idx of Inl e \<Rightarrow> Inl e | Inr ys \<Rightarrow> Inr (a ! i # ys))
      else Inl IndexError)"

text \<open>
  \<^verbatim>\<open>scores2recos\<close>: the positions from \<^verbatim>\<open>np.argsort(scores)\<close>, reversed by \<^verbatim>\<open>[::-1]\<close> when
  \<^verbatim>\<open>rev\<close> is set, index first \<^verbatim>\<open>target_i_indices\<close> and then \<^verbatim>\<open>scores\<close> (the elements of
  the returned tuple are evaluated from left to right).  Nothing is assigned to an
  attribute of \<^verbatim>\<open>self\<close>.  The first argument is the \<^verbatim>\<open>np.argsort\<close> in use.
\<close>

definition scores2recos ::
    "('s::linorder list \<Rightarrow> nat list) \<Rightarrow> recommender \<Rightarrow> 's list \<Rightarrow> int list \<Rightarrow> bool
       \<Rightarrow> (int list \<times> 's list) outcome" where
  "scores2recos argsort self scores target_i_indices rev' =
     (let sorted_indices = argsort scores;
          sorted_indices = (if rev' then rev sorted_indices else sorted_indices)
      in case fancy_index target_i_indices sorted_indices of
           Inl e \<Rightarrow> (Inl e, self)
         | Inr ranked_items \<Rightarrow>
             (case fancy_index scores sorted_indices of
                Inl e \<Rightarrow> (Inl e, self)
              | Inr ranked_scores \<Rightarrow> (Inr (ranked_items, ranked_scores), self)))"

section \<open>Arrays held by the caller\<close>

text \<open>
  numpy arrays are mutable objects that the caller and the callee share by reference.
  To speak about what a call does to the arrays it is handed, the arrays live in a
  memory of float arrays and of integer arrays; a reference is a position in its pool,
  and a newly constructed array is appended to its pool.
\<close>

record 's memory =
  float_arrays :: "'s list list"
  int_arrays :: "int list list"

definition new_int_array :: "'s memory \<Rightarrow> int list \<Rightarrow> nat \<times> 's memory" where
  "new_int_array m a = (length (int_arrays m), m\<lparr>int_arrays := int_arrays m @ [a]\<rparr>)"

definition new_float_array :: "'s memory \<Rightarrow> 's list \<Rightarrow> nat \<times> 's memory" where
  "new_float_array m a = (length (float_arrays m), m\<lparr>float_arrays := float_arrays m @ [a]\<rparr>)"

text \<open>
  \<^verbatim>\<open>scores2recos\<close> on references.  \<^verbatim>\<open>np.argsort\<close> reads \<^verbatim>\<open>scores\<close> and returns a new
  array of positions, \<^verbatim>\<open>[::-1]\<close> is a view of that new array, and both stay local to the
  call, so they are kept as values.  Each of the two indexing expressions with an array
  of positions constructs a new array; nothing is stored into an existing array.
\<close>

definition scores2recos_mem ::
    "('s::linorder list \<Rightarrow> nat list) \<Rightarrow> recommender \<Rightarrow> 's memory \<Rightarrow> nat \<Rightarrow> nat \<Rightarrow> bool
       \<Rightarrow> (error + nat \<times> nat) \<times> recommender \<times> 's memory" where
  "scores2recos_mem argsort self m scores target_i_indices rev' =
     (let sorted_indices = argsort (float_arrays m ! scores);
          sorted_indices = (if rev' then rev sorted_indices else sorted_indices)
      in case fancy_index (int_arrays m ! target_i_indices) sorted_indices of
           Inl e \<Rightarrow> (Inl e, self, m)
         | Inr ranked_items \<Rightarrow>
             (let (items_ref, m) = new_int_array m ranked_items
              in case fancy_index (float_arrays m ! scores) sorted_indices of
                   Inl e \<Rightarrow> (Inl e, self, m)
                 | Inr ranked_scores \<Rightarrow>
                     (let (scores_ref, m) = new_float_array m ranked_scores
                      in (Inr (items_ref, scores_ref), self, m))))"

section \<open>Histories of calls\<close>

text \<open>
  The concrete operations of the contract, as a driver issues them one at a time on one
  recommender, and the state after each of them (an exception leaves the state the call
  had reached).  The first argument is the \<^verbatim>\<open>np.argsort\<close> that \<^verbatim>\<open>scores2recos\<close> uses.
\<close>

datatype 's call =
    Add_user user
  | Add_item item
  | Is_new_user int
  | Is_new_item int
  | Scores2recos "'s list" "int list" bool

fun perform :: "('s::linorder list \<Rightarrow> nat list) \<Rightarrow> recommender \<Rightarrow> 's call \<Rightarrow> recommender" where
  "perform argsort self (Add_user usr) = snd (add_user self usr)"
| "perform argsort self (Add_item itm) = snd (add_item self itm)"
| "perform argsort self (Is_new_user u) = snd (is_new_user self u)"
| "perform argsort self (Is_new_item i) = snd (is_new_item self i)"
| "perform argsort self (Scores2recos scores target_i_indices rev') =
     snd (scores2recos argsort self scores target_i_indices rev')"

definition run :: "('s::linorder list \<Rightarrow> nat list) \<Rightarrow> 's call list \<Rightarrow> recommender" where
  "run argsort cs = foldl (perform argsort) init cs"

text \<open>
  The protocol the docstrings of \<^verbatim>\<open>add_user\<close> and \<^verbatim>\<open>add_item\<close> ask of the driver ("For new
  users, \<dots>", "For new items, \<dots>"): an entity is added only while \<^verbatim>\<open>is_new_user\<close>,
  respectively \<^verbatim>\<open>is_new_item\<close>, answers true for its index.
\<close>

fun guarded :: "('s::linorder list \<Rightarrow> nat list) \<Rightarrow> recommender \<Rightarrow> 's call list \<Rightarrow> bool" where
  "guarded argsort self [] = True"
| "guarded argsort self (Add_user usr # cs) =
     (fst (is_new_user self (user.index usr)) = Inr True
      \<and> guarded argsort (perform argsort self (Add_user usr)) cs)"
| "guarded argsort self (Add_item itm # cs) =
     (fst (is_new_item self (item.index itm)) = Inr True
      \<and> guarded argsort (perform argsort self (Add_item itm)) cs)"
| "guarded argsort self (c # cs) = guarded argsort (perform argsort self c) cs"

text \<open>The two counting invariants of the registry.\<close>

definition counts_agree :: "recommender \<Rightarrow> bool" where
  "counts_agree self \<longleftrightarrow>
     n_user self = int (fcard (fmdom (users self))) \<and>
     n_item self = int (fcard (fmdom (items self)))"

section \<open>Facts about indexing and \<open>argsort\<close>\<close>

lemma fancy_index_in_range:
  "\<forall>i\<in>set idx. i < length a \<Longrightarrow> fancy_index a idx = Inr (map (\<lambda>i. a ! i) idx)"
  by (induction idx) simp_all

lemma fancy_index_out_of_range:
  "\<exists>i\<in>set idx. \<not> i < length a \<Longrightarrow> fancy_index a idx = Inl IndexError"
proof (induction idx)
  case Nil
  then show ?case by simp
next
  case (Cons i idx)
  show ?case
  proof (cases "i < length a")
    case False
    then show ?thesis by simp
  next
    case True
    with Cons.prems have "\<exists>j\<in>set idx. \<not> j < length a" by auto
    with Cons.IH True show ?thesis by simp
  qed
qed

lemma is_argsort_set: "is_argsort a p \<Longrightarrow> set p = {0..<length a}"
proof -
  assume "is_argsort a p"
  then have "mset p = mset [0..<length a]"
    by (simp only: is_argsort_def)
  then have "set p = set [0..<length a]"
    by (rule mset_eq_setD)
  then show ?thesis by simp
qed

lemma is_argsort_length: "is_argsort a p \<Longrightarrow> length p = length a"
proof -
  assume "is_argsort a p"
  then have "mset p = mset [0..<length a]"
    by (simp only: is_argsort_def)
  then have "length p = length [0..<length a]"
    by (rule mset_eq_length)
  then show ?thesis by simp
qed

lemma is_argsort_sorted: "is_argsort a p \<Longrightarrow> sorted (map (\<lambda>i. a ! i) p)"
  by (simp only: is_argsort_def)

lemma mset_map_nth:
  assumes "mset p = mset [0..<length a]"
  shows "mset (map (\<lambda>i. a ! i) p) = mset a"
proof -
  have "mset (map (\<lambda>i. a ! i) p) = image_mset (\<lambda>i. a ! i) (mset [0..<length a])"
    by (simp only: mset_map assms)
  also have "\<dots> = mset (map (\<lambda>i. a ! i) [0..<length a])"
    by (simp only: mset_map)
  also have "\<dots> = mset a"
    by (simp only: map_nth)
  finally show ?thesis .
qed

lemma zip_nth_upt:
  "length a = length b \<Longrightarrow> map (\<lambda>i. (a ! i, b ! i)) [0..<length b] = zip a b"
  by (rule nth_equalityI) simp_all

lemma zip_ranked:
  "zip (map (\<lambda>i. target ! i) p) (map (\<lambda>i. scores ! i) p) = map (\<lambda>i. (target ! i, scores ! i)) p"
  by (induction p) simp_all

text \<open>Reading (item, score) pairs along a permutation of the positions permutes the pairs.\<close>

lemma pairs_permuted:
  assumes "mset p = mset [0..<length scores]" and "length target = length scores"
  shows "mset (map (\<lambda>i. (target ! i, scores ! i)) p) = mset (zip target scores)"
proof -
  have "mset (map (\<lambda>i. (target ! i, scores ! i)) p)
      = image_mset (\<lambda>i. (target ! i, scores ! i)) (mset [0..<length scores])"
    by (simp only: mset_map assms(1))
  also have "\<dots> = mset (map (\<lambda>i. (target ! i, scores ! i)) [0..<length scores])"
    by (simp only: mset_map)
  also have "\<dots> = mset (zip target scores)"
    using assms(2) by (simp only: zip_nth_upt)
  finally show ?thesis .
qed

text \<open>The two ways a call of \<open>scores2recos\<close> can end.\<close>

lemma scores2recos_returns:
  assumes "is_argsort scores (argsort scores)" and "length scores \<le> length target"
  shows "scores2recos argsort self scores target r =
           (Inr (map (\<lambda>i. target ! i) (if r then rev (argsort scores) else argsort scores),
                 map (\<lambda>i. scores ! i) (if r then rev (argsort scores) else argsort scores)), self)"
proof -
  have "\<forall>i\<in>set (argsort scores). i < length target"
    and "\<forall>i\<in>set (argsort scores). i < length scores"
    using assms by (simp_all add: is_argsort_set)
  then show ?thesis
    by (simp add: scores2recos_def Let_def fancy_index_in_range)
qed

lemma scores2recos_raises:
  assumes "is_argsort scores (argsort scores)" and "length target < length scores"
  shows "scores2recos argsort self scores target r = (Inl IndexError, self)"
proof -
  have "length scores - 1 \<in> set (argsort scores)" and "\<not> length scores - 1 < length target"
    using assms by (simp_all add: is_argsort_set)
  then have "\<exists>i\<in>set (argsort scores). \<not> i < length target" by blast
  then show ?thesis
    by (simp add: scores2recos_def Let_def fancy_index_out_of_range)
qed

lemma snd_scores2recos: "snd (scores2recos argsort self scores target r) = self"
  by (simp add: scores2recos_def Let_def split: sum.splits)

text \<open>The stable \<open>argsort\<close> is an \<open>argsort\<close>, and it sorts the (item, score) pairs stably.\<close>

lemma map_insort_key:
  "map g (insort_key (\<lambda>i. f (g i)) i idx) = insort_key f (g i) (map g idx)"
  by (induction idx) simp_all

lemma map_sort_key:
  "map g (sort_key (\<lambda>i. f (g i)) idx) = sort_key f (map g idx)"
  by (induction idx) (simp_all add: map_insort_key)

lemma stable_argsort_is_argsort: "is_argsort a (stable_argsort a)"
  by (simp add: is_argsort_def stable_argsort_def)

lemma stable_ranked_pairs:
  assumes "length target = length scores"
  shows "map (\<lambda>i. (target ! i, scores ! i)) (stable_argsort scores)
           = sort_key snd (zip target scores)"
proof -
  have "map (\<lambda>i. (target ! i, scores ! i)) (stable_argsort scores)
      = map (\<lambda>i. (target ! i, scores ! i))
          (sort_key (\<lambda>i. snd (target ! i, scores ! i)) [0..<length scores])"
    by (simp add: stable_argsort_def)
  also have "\<dots> = sort_key snd (map (\<lambda>i. (target ! i, scores ! i)) [0..<length scores])"
    by (rule map_sort_key)
  also have "\<dots> = sort_key snd (zip target scores)"
    using assms by (simp add: zip_nth_upt)
  finally show ?thesis .
qed

text \<open>Where all elements differ there is one \<open>argsort\<close> only.\<close>

lemma is_argsort_unique:
  assumes "is_argsort a p" and "is_argsort a q" and "distinct a"
  shows "p = q"
proof -
  have perm: "mset p = mset [0..<length a]" "mset q = mset [0..<length a]"
    using assms(1,2) by (simp_all only: is_argsort_def)
  have "sort a = map (\<lambda>i. a ! i) p"
    using mset_map_nth [OF perm(1)] is_argsort_sorted [OF assms(1)]
    by (rule properties_for_sort)
  moreover have "sort a = map (\<lambda>i. a ! i) q"
    using mset_map_nth [OF perm(2)] is_argsort_sorted [OF assms(2)]
    by (rule properties_for_sort)
  ultimately have same: "map (\<lambda>i. a ! i) p = map (\<lambda>i. a ! i) q"
    by simp
  have "set p \<union> set q = {0..<length a}"
    using assms(1,2) by (simp add: is_argsort_set)
  then have "inj_on (\<lambda>i. a ! i) (set p \<union> set q)"
    using assms(3) by (simp add: inj_on_nth)
  with same show ?thesis
    by (rule map_inj_on)
qed

section \<open>Ranking: order of the result\<close>

text \<open>
  C1.  For equal-length \<open>scores\<close> and \<open>target_i_indices\<close>, \<open>scores2recos\<close> with
  \<open>rev = False\<close> returns the scores in non-decreasing order and with \<open>rev = True\<close> in
  non-increasing order, the items permuted along with them: the returned (item, score)
  pairs are the pairs of the input.  For scores \<open>[0.3, 0.1, 0.2]\<close> and items \<open>[7, 8, 9]\<close>
  the call with \<open>rev = False\<close> returns items \<open>[8, 9, 7]\<close> with scores \<open>[0.1, 0.2, 0.3]\<close>, and
  the call with \<open>rev = True\<close> returns items \<open>[7, 9, 8]\<close> with scores \<open>[0.3, 0.2, 0.1]\<close>.
  This holds whatever \<^verbatim>\<open>np.argsort\<close> does with equal scores.
\<close>

theorem scores2recos_ordered:
  fixes argsort :: "'s::linorder list \<Rightarrow> nat list" and argsort' :: "real list \<Rightarrow> nat list"
  assumes "is_argsort scores (argsort scores)"
    and "is_argsort [0.3, 0.1, 0.2 :: real] (argsort' [0.3, 0.1, 0.2])"
    and "length scores = length target_i_indices"
  shows "(\<exists>ranked_items ranked_scores.
            fst (scores2recos argsort self scores target_i_indices False)
              = Inr (ranked_items, ranked_scores)
          \<and> sorted_wrt (\<le>) ranked_scores
          \<and> mset (zip ranked_items ranked_scores) = mset (zip target_i_indices scores))
       \<and> (\<exists>ranked_items ranked_scores.
            fst (scores2recos argsort self scores target_i_indices True)
              = Inr (ranked_items, ranked_scores)
          \<and> sorted_wrt (\<ge>) ranked_scores
          \<and> mset (zip ranked_items ranked_scores) = mset (zip target_i_indices scores))
       \<and> fst (scores2recos argsort' self [0.3, 0.1, 0.2] [7, 8, 9] False)
           = Inr ([8, 9, 7], [0.1, 0.2, 0.3])
       \<and> fst (scores2recos argsort' self [0.3, 0.1, 0.2] [7, 8, 9] True)
           = Inr ([7, 9, 8], [0.3, 0.2, 0.1])"
proof -
  let ?p = "argsort scores"
  let ?pairs = "\<lambda>p. zip (map (\<lambda>i. target_i_indices ! i) p) (map (\<lambda>i. scores ! i) p)"
  have len: "length scores \<le> length target_i_indices" "length target_i_indices = length scores"
    using assms(3) by simp_all
  have perm: "mset ?p = mset [0..<length scores]"
    using assms(1) by (simp only: is_argsort_def)
  have asc: "sorted_wrt (\<le>) (map (\<lambda>i. scores ! i) ?p)"
    using assms(1) by (rule is_argsort_sorted)
  have "sorted_wrt (\<le>) (rev (map (\<lambda>i. scores ! i) (rev ?p)))"
    using asc by (simp add: rev_map)
  then have desc: "sorted_wrt (\<ge>) (map (\<lambda>i. scores ! i) (rev ?p))"
    by (simp add: sorted_wrt_rev)
  have pairs: "mset (?pairs ?p) = mset (zip target_i_indices scores)"
    by (simp only: zip_ranked pairs_permuted [OF perm len(2)])
  have "?pairs (rev ?p) = rev (?pairs ?p)"
    by (simp add: zip_ranked rev_map)
  then have pairs_rev: "mset (?pairs (rev ?p)) = mset (zip target_i_indices scores)"
    using pairs by simp
  have up: "\<exists>ranked_items ranked_scores.
            fst (scores2recos argsort self scores target_i_indices False)
              = Inr (ranked_items, ranked_scores)
          \<and> sorted_wrt (\<le>) ranked_scores
          \<and> mset (zip ranked_items ranked_scores) = mset (zip target_i_indices scores)"
    using asc pairs by (simp add: scores2recos_returns [where argsort = argsort, OF assms(1) len(1)])
  have down: "\<exists>ranked_items ranked_scores.
            fst (scores2recos argsort self scores target_i_indices True)
              = Inr (ranked_items, ranked_scores)
          \<and> sorted_wrt (\<ge>) ranked_scores
          \<and> mset (zip ranked_items ranked_scores) = mset (zip target_i_indices scores)"
    using desc pairs_rev by (simp add: scores2recos_returns [where argsort = argsort, OF assms(1) len(1)])
  have "distinct [0.3, 0.1, 0.2 :: real]"
    by simp
  with assms(2) stable_argsort_is_argsort
  have "argsort' [0.3, 0.1, 0.2] = stable_argsort [0.3, 0.1, 0.2 :: real]"
    by (rule is_argsort_unique)
  then have positions: "argsort' [0.3, 0.1, 0.2] = [1, 2, 0]"
    by (simp add: stable_argsort_def upt_rec)
  have ex1: "fst (scores2recos argsort' self [0.3, 0.1, 0.2] [7, 8, 9] False)
               = Inr ([8, 9, 7], [0.1, 0.2, 0.3])"
    unfolding scores2recos_def positions by simp
  have ex2: "fst (scores2recos argsort' self [0.3, 0.1, 0.2] [7, 8, 9] True)
               = Inr ([7, 9, 8], [0.3, 0.2, 0.1])"
    unfolding scores2recos_def positions by simp
  from up down ex1 ex2 show ?thesis by blast
qed

text \<open>
  The theorem at scores \<open>[2, 1, 2]\<close> for the items \<open>[4, 5, 6]\<close>, with the stable
  \<open>argsort\<close>.
\<close>

theorem scores2recos_ordered_witness:
  "length [2, 1, 2 :: nat] = length [4, 5, 6 :: int]
   \<and> (\<exists>ranked_items ranked_scores.
         fst (scores2recos stable_argsort init [2, 1, 2 :: nat] [4, 5, 6] False)
           = Inr (ranked_items, ranked_scores)
       \<and> sorted_wrt (\<le>) ranked_scores
       \<and> mset (zip ranked_items ranked_scores) = mset (zip [4, 5, 6] [2, 1, 2]))
   \<and> (\<exists>ranked_items ranked_scores.
         fst (scores2recos stable_argsort init [2, 1, 2 :: nat] [4, 5, 6] True)
           = Inr (ranked_items, ranked_scores)
       \<and> sorted_wrt (\<ge>) ranked_scores
       \<and> mset (zip ranked_items ranked_scores) = mset (zip [4, 5, 6] [2, 1, 2]))
   \<and> fst (scores2recos stable_argsort init [0.3, 0.1, 0.2 :: real] [7, 8, 9] False)
       = Inr ([8, 9, 7], [0.1, 0.2, 0.3])"
  using scores2recos_ordered
    [where argsort = stable_argsort and argsort' = stable_argsort
       and scores = "[2, 1, 2 :: nat]" and target_i_indices = "[4, 5, 6]" and self = init,
     OF stable_argsort_is_argsort stable_argsort_is_argsort]
  by simp

section \<open>Ranking: \<open>rev\<close> reverses the ascending result\<close>

lemma scores2recos_down_is_rev_up:
  assumes "is_argsort scores (argsort scores)" and "length scores \<le> length target"
  shows "\<exists>ranked_items ranked_scores.
            fst (scores2recos argsort self scores target False) = Inr (ranked_items, ranked_scores)
          \<and> fst (scores2recos argsort self scores target True)
               = Inr (rev ranked_items, rev ranked_scores)"
  by (simp add: scores2recos_returns [where argsort = argsort, OF assms] rev_map)

text \<open>
  C9.  For equal-length \<open>scores\<close> and \<open>target_i_indices\<close>, the pair returned with
  \<open>rev = True\<close> is the pair returned with \<open>rev = False\<close> with both the items and the
  scores reversed.
\<close>

theorem scores2recos_rev_reverses:
  fixes argsort :: "'s::linorder list \<Rightarrow> nat list"
  assumes "is_argsort scores (argsort scores)"
    and "length scores = length target_i_indices"
  shows "\<exists>ranked_items ranked_scores.
            fst (scores2recos argsort self scores target_i_indices False)
              = Inr (ranked_items, ranked_scores)
          \<and> fst (scores2recos argsort self scores target_i_indices True)
               = Inr (rev ranked_items, rev ranked_scores)"
proof -
  have "length scores \<le> length target_i_indices"
    using assms(2) by simp
  with assms(1) show ?thesis
    by (rule scores2recos_down_is_rev_up)
qed

text \<open>
  The theorem at scores \<open>[2, 1, 2]\<close> for the items \<open>[4, 5, 6]\<close>, with the stable
  \<open>argsort\<close>.
\<close>

theorem scores2recos_rev_reverses_witness:
  "length [2, 1, 2 :: nat] = length [4, 5, 6 :: int]
   \<and> (\<exists>ranked_items ranked_scores.
            fst (scores2recos stable_argsort init [2, 1, 2 :: nat] [4, 5, 6] False)
              = Inr (ranked_items, ranked_scores)
          \<and> fst (scores2recos stable_argsort init [2, 1, 2 :: nat] [4, 5, 6] True)
               = Inr (rev ranked_items, rev ranked_scores))"
  using scores2recos_rev_reverses
    [where argsort = stable_argsort and scores = "[2, 1, 2 :: nat]"
       and target_i_indices = "[4, 5, 6]" and self = init,
     OF stable_argsort_is_argsort]
  by simp

section \<open>Ranking: ties\<close>

text \<open>
  C2, as stated, at scores \<open>[0.5, 0.5]\<close> for the items \<open>[1, 2]\<close> with \<open>rev = True\<close>, where
  \<^verbatim>\<open>np.argsort\<close> returns the positions \<open>[0, 1]\<close>: they are reversed, so the two items with
  the same score come back as \<open>[2, 1]\<close> and not in their input order \<open>[1, 2]\<close>.
\<close>

theorem scores2recos_ties_reversed_counterexample:
  "fst (scores2recos stable_argsort init [0.5, 0.5 :: real] [1, 2] True) = Inr ([2, 1], [0.5, 0.5])
   \<and> fst (scores2recos stable_argsort init [0.5, 0.5 :: real] [1, 2] True)
       \<noteq> Inr ([1, 2], [0.5, 0.5])"
  by (simp add: scores2recos_def stable_argsort_def upt_rec)

text \<open>
  C2, amended.  \<open>scores2recos\<close> is not stable for both settings of \<open>rev\<close>.  For
  equal-length \<open>scores\<close> and \<open>target_i_indices\<close>, the (item, score) pairs of any one score
  appear in the result for \<open>rev = True\<close> in exactly the reverse of their order in the
  result for \<open>rev = False\<close>.  Their order for \<open>rev = False\<close> is the order in which
  \<^verbatim>\<open>np.argsort\<close> returns the positions of equal scores: when it returns the stable
  arrangement for the given scores, \<open>rev = False\<close> keeps equal scores in their input order
  and \<open>rev = True\<close> returns them in the reverse of their input order.  Scores
  \<open>[0.5, 0.5]\<close> for the items \<open>[1, 2]\<close> never return the items \<open>[1, 2]\<close> for both settings of
  \<open>rev\<close>; they return \<open>[1, 2]\<close> for \<open>rev = False\<close> when \<^verbatim>\<open>np.argsort\<close> returns the stable
  arrangement \<open>[0, 1]\<close>.
\<close>

theorem scores2recos_ties:
  fixes argsort :: "'s::linorder list \<Rightarrow> nat list" and argsort' :: "real list \<Rightarrow> nat list"
  assumes "is_argsort scores (argsort scores)"
    and "is_argsort [0.5, 0.5 :: real] (argsort' [0.5, 0.5])"
    and "length scores = length target_i_indices"
  shows "(\<exists>items_up scores_up items_down scores_down.
            fst (scores2recos argsort self scores target_i_indices False)
              = Inr (items_up, scores_up)
          \<and> fst (scores2recos argsort self scores target_i_indices True)
              = Inr (items_down, scores_down)
          \<and> items_up = map (\<lambda>i. target_i_indices ! i) (argsort scores)
          \<and> scores_up = map (\<lambda>i. scores ! i) (argsort scores)
          \<and> (\<forall>v. filter (\<lambda>(i, s). s = v) (zip items_down scores_down)
                 = rev (filter (\<lambda>(i, s). s = v) (zip items_up scores_up)))
          \<and> (argsort scores = stable_argsort scores \<longrightarrow>
                (\<forall>v. filter (\<lambda>(i, s). s = v) (zip items_up scores_up)
                    = filter (\<lambda>(i, s). s = v) (zip target_i_indices scores))
              \<and> (\<forall>v. filter (\<lambda>(i, s). s = v) (zip items_down scores_down)
                    = rev (filter (\<lambda>(i, s). s = v) (zip target_i_indices scores)))))
       \<and> \<not> (fst (scores2recos argsort' self [0.5, 0.5] [1, 2] False) = Inr ([1, 2], [0.5, 0.5])
            \<and> fst (scores2recos argsort' self [0.5, 0.5] [1, 2] True) = Inr ([1, 2], [0.5, 0.5]))
       \<and> (argsort' [0.5, 0.5] = stable_argsort [0.5, 0.5 :: real] \<longrightarrow>
            fst (scores2recos argsort' self [0.5, 0.5] [1, 2] False) = Inr ([1, 2], [0.5, 0.5]))"
proof -
  let ?p = "argsort scores"
  let ?pairs = "\<lambda>p. zip (map (\<lambda>i. target_i_indices ! i) p) (map (\<lambda>i. scores ! i) p)"
  have len: "length scores \<le> length target_i_indices" "length target_i_indices = length scores"
    using assms(3) by simp_all
  have sel: "(\<lambda>(i, s). s = v) = (\<lambda>y. snd y = v)" for v :: 's
    by auto
  have down_up: "?pairs (rev ?p) = rev (?pairs ?p)"
    by (simp add: zip_ranked rev_map)
  have reversed: "filter (\<lambda>(i, s). s = v) (?pairs (rev ?p))
                    = rev (filter (\<lambda>(i, s). s = v) (?pairs ?p))" for v
    unfolding down_up by (rule rev_filter [symmetric])
  have stable: "filter (\<lambda>(i, s). s = v) (?pairs ?p)
                  = filter (\<lambda>(i, s). s = v) (zip target_i_indices scores)"
    if "?p = stable_argsort scores" for v
  proof -
    have "?pairs ?p = sort_key snd (zip target_i_indices scores)"
      by (simp only: that zip_ranked stable_ranked_pairs [OF len(2)])
    then show ?thesis
      unfolding sel by (simp only: sort_key_stable)
  qed
  have stable_down: "filter (\<lambda>(i, s). s = v) (?pairs (rev ?p))
                  = rev (filter (\<lambda>(i, s). s = v) (zip target_i_indices scores))"
    if "?p = stable_argsort scores" for v
    using reversed [of v] stable [OF that, of v] by simp
  have general: "\<exists>items_up scores_up items_down scores_down.
            fst (scores2recos argsort self scores target_i_indices False)
              = Inr (items_up, scores_up)
          \<and> fst (scores2recos argsort self scores target_i_indices True)
              = Inr (items_down, scores_down)
          \<and> items_up = map (\<lambda>i. target_i_indices ! i) (argsort scores)
          \<and> scores_up = map (\<lambda>i. scores ! i) (argsort scores)
          \<and> (\<forall>v. filter (\<lambda>(i, s). s = v) (zip items_down scores_down)
                 = rev (filter (\<lambda>(i, s). s = v) (zip items_up scores_up)))
          \<and> (argsort scores = stable_argsort scores \<longrightarrow>
                (\<forall>v. filter (\<lambda>(i, s). s = v) (zip items_up scores_up)
                    = filter (\<lambda>(i, s). s = v) (zip target_i_indices scores))
              \<and> (\<forall>v. filter (\<lambda>(i, s). s = v) (zip items_down scores_down)
                    = rev (filter (\<lambda>(i, s). s = v) (zip target_i_indices scores))))"
    using reversed stable stable_down
    by (simp add: scores2recos_returns [where argsort = argsort, OF assms(1) len(1)])
  have "length [0.5, 0.5 :: real] \<le> length [1, 2 :: int]"
    by simp
  with assms(2) have "\<exists>ranked_items ranked_scores.
            fst (scores2recos argsort' self [0.5, 0.5] [1, 2] False) = Inr (ranked_items, ranked_scores)
          \<and> fst (scores2recos argsort' self [0.5, 0.5] [1, 2] True)
               = Inr (rev ranked_items, rev ranked_scores)"
    by (rule scores2recos_down_is_rev_up)
  then have not_both:
    "\<not> (fst (scores2recos argsort' self [0.5, 0.5] [1, 2] False) = Inr ([1, 2], [0.5, 0.5])
        \<and> fst (scores2recos argsort' self [0.5, 0.5] [1, 2] True) = Inr ([1, 2], [0.5, 0.5]))"
    by auto
  have scenario: "fst (scores2recos argsort' self [0.5, 0.5] [1, 2] False) = Inr ([1, 2], [0.5, 0.5])"
    if "argsort' [0.5, 0.5] = stable_argsort [0.5, 0.5 :: real]"
    unfolding scores2recos_def that by (simp add: stable_argsort_def upt_rec)
  from general not_both scenario show ?thesis by blast
qed

text \<open>
  The theorem at scores \<open>[2, 1, 2]\<close> for the items \<open>[4, 5, 6]\<close>, with the stable
  \<open>argsort\<close>: items 4 and 6 share the score 2.
\<close>

theorem scores2recos_ties_witness:
  "length [2, 1, 2 :: nat] = length [4, 5, 6 :: int]
   \<and> (\<exists>items_up scores_up items_down scores_down.
          fst (scores2recos stable_argsort init [2, 1, 2 :: nat] [4, 5, 6] False)
            = Inr (items_up, scores_up)
        \<and> fst (scores2recos stable_argsort init [2, 1, 2 :: nat] [4, 5, 6] True)
            = Inr (items_down, scores_down)
        \<and> items_up = map (\<lambda>i. [4, 5, 6] ! i) (stable_argsort [2, 1, 2 :: nat])
        \<and> scores_up = map (\<lambda>i. [2, 1, 2] ! i) (stable_argsort [2, 1, 2 :: nat])
        \<and> (\<forall>v. filter (\<lambda>(i, s). s = v) (zip items_down scores_down)
               = rev (filter (\<lambda>(i, s). s = v) (zip items_up scores_up)))
        \<and> (\<forall>v. filter (\<lambda>(i, s). s = v) (zip items_up scores_up)
               = filter (\<lambda>(i, s). s = v) (zip [4, 5, 6] [2, 1, 2]))
        \<and> (\<forall>v. filter (\<lambda>(i, s). s = v) (zip items_down scores_down)
               = rev (filter (\<lambda>(i, s). s = v) (zip [4, 5, 6] [2, 1, 2]))))
   \<and> fst (scores2recos stable_argsort init [0.5, 0.5 :: real] [1, 2] False)
       = Inr ([1, 2], [0.5, 0.5])
   \<and> fst (scores2recos stable_argsort init [0.5, 0.5 :: real] [1, 2] True)
       \<noteq> Inr ([1, 2], [0.5, 0.5])"
  using scores2recos_ties
    [where argsort = stable_argsort and argsort' = stable_argsort
       and scores = "[2, 1, 2 :: nat]" and target_i_indices = "[4, 5, 6]" and self = init,
     OF stable_argsort_is_argsort stable_argsort_is_argsort]
  by simp

section \<open>Ranking: sequences of different lengths\<close>

text \<open>
  C3, as stated, at one score \<open>[0.1]\<close> for the two items \<open>[7, 8]\<close>: the call raises
  nothing and returns a ranking of one item, item \<open>8\<close> is dropped.
\<close>

theorem scores2recos_truncates_counterexample:
  "scores2recos stable_argsort init [0.1 :: real] [7, 8] False = (Inr ([7], [0.1]), init)"
  by (simp add: scores2recos_def stable_argsort_def upt_rec)

text \<open>
  C3, amended.  When \<open>target_i_indices\<close> is shorter than \<open>scores\<close> the call raises
  \<open>IndexError\<close> and the state is as before the call.  When \<open>target_i_indices\<close> is longer
  than \<open>scores\<close> the call raises nothing and the state is as before the call: it returns
  exactly what it returns for the first \<open>length scores\<close> items alone, the items after
  them being ignored.  That result has as many items and scores as there are scores, its
  (item, score) pairs are those first items paired with the scores, and its scores are in
  non-decreasing order for \<open>rev = False\<close> and in non-increasing order for \<open>rev = True\<close>.
\<close>

theorem scores2recos_length_mismatch:
  fixes argsort :: "'s::linorder list \<Rightarrow> nat list"
  assumes "is_argsort scores (argsort scores)"
  shows "(length target_i_indices < length scores \<longrightarrow>
            scores2recos argsort self scores target_i_indices rev' = (Inl IndexError, self))
       \<and> (length scores < length target_i_indices \<longrightarrow>
            (\<exists>ranked_items ranked_scores.
                scores2recos argsort self scores target_i_indices rev'
                  = (Inr (ranked_items, ranked_scores), self)
              \<and> scores2recos argsort self scores (take (length scores) target_i_indices) rev'
                  = (Inr (ranked_items, ranked_scores), self)
              \<and> length ranked_items = length scores
              \<and> length ranked_scores = length scores
              \<and> mset (zip ranked_items ranked_scores)
                  = mset (zip (take (length scores) target_i_indices) scores)
              \<and> (if rev' then sorted_wrt (\<ge>) ranked_scores
                  else sorted_wrt (\<le>) ranked_scores)))"
proof (intro conjI impI)
  assume "length target_i_indices < length scores"
  with assms show "scores2recos argsort self scores target_i_indices rev' = (Inl IndexError, self)"
    by (rule scores2recos_raises)
next
  assume longer: "length scores < length target_i_indices"
  let ?p = "if rev' then rev (argsort scores) else argsort scores"
  let ?first = "take (length scores) target_i_indices"
  let ?items = "map (\<lambda>i. target_i_indices ! i) ?p"
  let ?scores = "map (\<lambda>i. scores ! i) ?p"
  have len: "length ?first = length scores" "length scores \<le> length ?first"
    "length scores \<le> length target_i_indices"
    using longer by simp_all
  have perm: "mset (argsort scores) = mset [0..<length scores]"
    using assms by (simp only: is_argsort_def)
  have same_items: "?items = map (\<lambda>i. ?first ! i) ?p"
    using assms by (intro map_cong) (simp_all add: is_argsort_set split: if_splits)
  have whole: "scores2recos argsort self scores target_i_indices rev' = (Inr (?items, ?scores), self)"
    by (simp only: scores2recos_returns [where argsort = argsort, OF assms len(3)])
  have prefix: "scores2recos argsort self scores ?first rev' = (Inr (?items, ?scores), self)"
    by (simp only: scores2recos_returns [where argsort = argsort, OF assms len(2)] same_items)
  have "zip ?items ?scores = map (\<lambda>i. (?first ! i, scores ! i)) ?p"
    by (simp only: same_items zip_ranked)
  also have "mset \<dots> = mset (map (\<lambda>i. (?first ! i, scores ! i)) (argsort scores))"
    by simp
  also have "\<dots> = mset (zip ?first scores)"
    using perm len(1) by (rule pairs_permuted)
  finally have pairs: "mset (zip ?items ?scores) = mset (zip ?first scores)" .
  have asc: "sorted_wrt (\<le>) (map (\<lambda>i. scores ! i) (argsort scores))"
    using assms by (rule is_argsort_sorted)
  then have "sorted_wrt (\<le>) (rev (map (\<lambda>i. scores ! i) (rev (argsort scores))))"
    by (simp add: rev_map)
  then have desc: "sorted_wrt (\<ge>) (map (\<lambda>i. scores ! i) (rev (argsort scores)))"
    by (simp add: sorted_wrt_rev)
  have order: "if rev' then sorted_wrt (\<ge>) ?scores else sorted_wrt (\<le>) ?scores"
    using asc desc by simp
  have lengths: "length ?items = length scores" "length ?scores = length scores"
    using assms by (simp_all add: is_argsort_length)
  from whole prefix lengths pairs order
  show "\<exists>ranked_items ranked_scores.
                scores2recos argsort self scores target_i_indices rev'
                  = (Inr (ranked_items, ranked_scores), self)
              \<and> scores2recos argsort self scores (take (length scores) target_i_indices) rev'
                  = (Inr (ranked_items, ranked_scores), self)
              \<and> length ranked_items = length scores
              \<and> length ranked_scores = length scores
              \<and> mset (zip ranked_items ranked_scores)
                  = mset (zip (take (length scores) target_i_indices) scores)
              \<and> (if rev' then sorted_wrt (\<ge>) ranked_scores
                  else sorted_wrt (\<le>) ranked_scores)"
    by blast
qed

text \<open>
  The theorem at two scores for one item (first part) and at two scores for three items
  with \<open>rev = True\<close> (second part), with the stable \<open>argsort\<close>.
\<close>

theorem scores2recos_length_mismatch_witness:
  "length [7 :: int] < length [2, 1 :: nat]
   \<and> scores2recos stable_argsort init [2, 1 :: nat] [7] False = (Inl IndexError, init)
   \<and> length [1, 2 :: nat] < length [7, 8, 9 :: int]
   \<and> (\<exists>ranked_items ranked_scores.
          scores2recos stable_argsort init [1, 2 :: nat] [7, 8, 9] True
            = (Inr (ranked_items, ranked_scores), init)
        \<and> scores2recos stable_argsort init [1, 2 :: nat] (take (length [1, 2 :: nat]) [7, 8, 9]) True
            = (Inr (ranked_items, ranked_scores), init)
        \<and> length ranked_items = length [1, 2 :: nat]
        \<and> length ranked_scores = length [1, 2 :: nat]
        \<and> mset (zip ranked_items ranked_scores)
            = mset (zip (take (length [1, 2 :: nat]) [7, 8, 9]) [1, 2])
        \<and> sorted_wrt (\<ge>) ranked_scores)"
  using scores2recos_length_mismatch
      [where argsort = stable_argsort and scores = "[2, 1 :: nat]" and target_i_indices = "[7]"
         and self = init and rev' = False, OF stable_argsort_is_argsort]
    scores2recos_length_mismatch
      [where argsort = stable_argsort and scores = "[1, 2 :: nat]"
         and target_i_indices = "[7, 8, 9]" and self = init and rev' = True,
       OF stable_argsort_is_argsort]
  by simp

section \<open>Ranking: the result is a joint permutation\<close>

text \<open>
  C4.  For equal-length \<open>scores\<close> and \<open>target_i_indices\<close> and either value of \<open>rev\<close>, the
  returned items are the multiset of \<open>target_i_indices\<close> and the returned scores are the
  multiset of \<open>scores\<close> (so duplicates are kept with their multiplicity), both have the
  length of the inputs, and one permutation \<open>p\<close> of the positions produces both, so each
  returned item stands beside its own score.
\<close>

theorem scores2recos_joint_permutation:
  fixes argsort :: "'s::linorder list \<Rightarrow> nat list"
  assumes "is_argsort scores (argsort scores)"
    and "length scores = length target_i_indices"
  shows "\<exists>ranked_items ranked_scores p.
            fst (scores2recos argsort self scores target_i_indices rev')
              = Inr (ranked_items, ranked_scores)
          \<and> mset ranked_items = mset target_i_indices
          \<and> mset ranked_scores = mset scores
          \<and> length ranked_items = length target_i_indices
          \<and> length ranked_scores = length scores
          \<and> mset p = mset [0..<length scores]
          \<and> ranked_items = map (\<lambda>i. target_i_indices ! i) p
          \<and> ranked_scores = map (\<lambda>i. scores ! i) p
          \<and> mset (zip ranked_items ranked_scores) = mset (zip target_i_indices scores)"
proof -
  let ?p = "if rev' then rev (argsort scores) else argsort scores"
  have len: "length scores \<le> length target_i_indices" "length target_i_indices = length scores"
    using assms(2) by simp_all
  have "mset (argsort scores) = mset [0..<length scores]"
    using assms(1) by (simp only: is_argsort_def)
  then have perm: "mset ?p = mset [0..<length scores]"
    by simp
  then have perm': "mset ?p = mset [0..<length target_i_indices]"
    using assms(2) by simp
  have "mset (map (\<lambda>i. (target_i_indices ! i, scores ! i)) ?p) = mset (zip target_i_indices scores)"
    using perm len(2) by (rule pairs_permuted)
  then have pairs: "mset (zip (map (\<lambda>i. target_i_indices ! i) ?p) (map (\<lambda>i. scores ! i) ?p))
                      = mset (zip target_i_indices scores)"
    by (simp only: zip_ranked)
  have "fst (scores2recos argsort self scores target_i_indices rev')
          = Inr (map (\<lambda>i. target_i_indices ! i) ?p, map (\<lambda>i. scores ! i) ?p)"
    by (simp add: scores2recos_returns [where argsort = argsort, OF assms(1) len(1)])
  moreover have "mset (map (\<lambda>i. target_i_indices ! i) ?p) = mset target_i_indices"
    using perm' by (rule mset_map_nth)
  moreover have "mset (map (\<lambda>i. scores ! i) ?p) = mset scores"
    using perm by (rule mset_map_nth)
  moreover have "length (map (\<lambda>i. target_i_indices ! i) ?p) = length target_i_indices"
    and "length (map (\<lambda>i. scores ! i) ?p) = length scores"
    using assms by (simp_all add: is_argsort_length)
  ultimately show ?thesis
    using perm pairs by blast
qed

text \<open>
  The theorem at scores \<open>[2, 1, 2]\<close> for the items \<open>[5, 5, 6]\<close>, item \<open>5\<close> given twice,
  with \<open>rev = True\<close> and the stable \<open>argsort\<close>.
\<close>

theorem scores2recos_joint_permutation_witness:
  "length [2, 1, 2 :: nat] = length [5, 5, 6 :: int]
   \<and> (\<exists>ranked_items ranked_scores p.
            fst (scores2recos stable_argsort init [2, 1, 2 :: nat] [5, 5, 6] True)
              = Inr (ranked_items, ranked_scores)
          \<and> mset ranked_items = mset [5, 5, 6]
          \<and> mset ranked_scores = mset [2, 1, 2]
          \<and> length ranked_items = length [5, 5, 6 :: int]
          \<and> length ranked_scores = length [2, 1, 2 :: nat]
          \<and> mset p = mset [0..<length [2, 1, 2 :: nat]]
          \<and> ranked_items = map (\<lambda>i. [5, 5, 6] ! i) p
          \<and> ranked_scores = map (\<lambda>i. [2, 1, 2] ! i) p
          \<and> mset (zip ranked_items ranked_scores) = mset (zip [5, 5, 6] [2, 1, 2]))"
  using scores2recos_joint_permutation
    [where argsort = stable_argsort and scores = "[2, 1, 2 :: nat]"
       and target_i_indices = "[5, 5, 6]" and self = init and rev' = True,
     OF stable_argsort_is_argsort]
  by simp

section \<open>Registry: adding an entity\<close>

text \<open>
  C7.  When the index of \<open>usr\<close> is new, \<open>add_user\<close> stores the entry
  \<open>{observed: empty set}\<close> under that index, increases \<open>n_user\<close> by exactly 1 and adds
  exactly the one key to \<open>users\<close>; the records of the users registered before, \<open>items\<close>
  and \<open>n_item\<close> are as they were.  Likewise \<open>add_item\<close> for a new item index stores the
  empty record, increases \<open>n_item\<close> by exactly 1 and adds the one key to \<open>items\<close>, with
  the other item records, \<open>users\<close> and \<open>n_user\<close> as they were.
\<close>

theorem add_new:
  "(fst (is_new_user self (user.index usr)) = Inr True \<longrightarrow>
      (\<exists>self'. add_user self usr = (Inr (), self')
         \<and> fmlookup (users self') (user.index usr) = Some (fmupd ''observed'' {||} fmempty)
         \<and> n_user self' = n_user self + 1
         \<and> user.index usr |\<notin>| fmdom (users self)
         \<and> fmdom (users self') = finsert (user.index usr) (fmdom (users self))
         \<and> fcard (fmdom (users self')) = fcard (fmdom (users self)) + 1
         \<and> (\<forall>k. k |\<in>| fmdom (users self) \<longrightarrow> fmlookup (users self') k = fmlookup (users self) k)
         \<and> items self' = items self
         \<and> n_item self' = n_item self))
   \<and> (fst (is_new_item self (item.index itm)) = Inr True \<longrightarrow>
      (\<exists>self'. add_item self itm = (Inr (), self')
         \<and> fmlookup (items self') (item.index itm) = Some fmempty
         \<and> n_item self' = n_item self + 1
         \<and> item.index itm |\<notin>| fmdom (items self)
         \<and> fmdom (items self') = finsert (item.index itm) (fmdom (items self))
         \<and> fcard (fmdom (items self')) = fcard (fmdom (items self)) + 1
         \<and> (\<forall>k. k |\<in>| fmdom (items self) \<longrightarrow> fmlookup (items self') k = fmlookup (items self) k)
         \<and> users self' = users self
         \<and> n_user self' = n_user self))"
proof (intro conjI impI)
  assume "fst (is_new_user self (user.index usr)) = Inr True"
  then have new: "user.index usr |\<notin>| fmdom (users self)"
    by (simp add: is_new_user_def)
  then have "\<forall>k. k |\<in>| fmdom (users self) \<longrightarrow> k \<noteq> user.index usr"
    by blast
  with new show "\<exists>self'. add_user self usr = (Inr (), self')
         \<and> fmlookup (users self') (user.index usr) = Some (fmupd ''observed'' {||} fmempty)
         \<and> n_user self' = n_user self + 1
         \<and> user.index usr |\<notin>| fmdom (users self)
         \<and> fmdom (users self') = finsert (user.index usr) (fmdom (users self))
         \<and> fcard (fmdom (users self')) = fcard (fmdom (users self)) + 1
         \<and> (\<forall>k. k |\<in>| fmdom (users self) \<longrightarrow> fmlookup (users self') k = fmlookup (users self) k)
         \<and> items self' = items self
         \<and> n_item self' = n_item self"
    by (simp add: add_user_def fcard_finsert_disjoint)
next
  assume "fst (is_new_item self (item.index itm)) = Inr True"
  then have new: "item.index itm |\<notin>| fmdom (items self)"
    by (simp add: is_new_item_def)
  then have "\<forall>k. k |\<in>| fmdom (items self) \<longrightarrow> k \<noteq> item.index itm"
    by blast
  with new show "\<exists>self'. add_item self itm = (Inr (), self')
         \<and> fmlookup (items self') (item.index itm) = Some fmempty
         \<and> n_item self' = n_item self + 1
         \<and> item.index itm |\<notin>| fmdom (items self)
         \<and> fmdom (items self') = finsert (item.index itm) (fmdom (items self))
         \<and> fcard (fmdom (items self')) = fcard (fmdom (items self)) + 1
         \<and> (\<forall>k. k |\<in>| fmdom (items self) \<longrightarrow> fmlookup (items self') k = fmlookup (items self) k)
         \<and> users self' = users self
         \<and> n_user self' = n_user self"
    by (simp add: add_item_def fcard_finsert_disjoint)
qed

text \<open>
  The theorem in the state with user 1 registered: user 2 and item 5 are new and are
  added.
\<close>

theorem add_new_witness:
  "fst (is_new_user (snd (add_user init \<lparr>user.index = 1\<rparr>)) (user.index \<lparr>user.index = 2\<rparr>)) = Inr True
   \<and> add_user (snd (add_user init \<lparr>user.index = 1\<rparr>)) \<lparr>user.index = 2\<rparr>
       = (Inr (), \<lparr>n_user = 2,
                   users = fmupd 2 (fmupd ''observed'' {||} fmempty)
                             (fmupd 1 (fmupd ''observed'' {||} fmempty) fmempty),
                   n_item = 0, items = fmempty\<rparr>)
   \<and> fst (is_new_item (snd (add_user init \<lparr>user.index = 1\<rparr>)) (item.index \<lparr>item.index = 5\<rparr>)) = Inr True
   \<and> add_item (snd (add_user init \<lparr>user.index = 1\<rparr>)) \<lparr>item.index = 5\<rparr>
       = (Inr (), \<lparr>n_user = 1, users = fmupd 1 (fmupd ''observed'' {||} fmempty) fmempty,
                   n_item = 1, items = fmupd 5 fmempty fmempty\<rparr>)"
  using add_new [where self = "snd (add_user init \<lparr>user.index = 1\<rparr>)"
      and usr = "\<lparr>user.index = 2\<rparr>" and itm = "\<lparr>item.index = 5\<rparr>"]
  by (simp add: is_new_user_def is_new_item_def add_user_def add_item_def init_def)

text \<open>
  C5, as stated, at item index 42 and at user index 42: the second \<open>add_item\<close> returns
  normally and leaves \<open>n_item = 2\<close> with the single key 42 in \<open>items\<close>, and the second
  \<open>add_user\<close> does the same to \<open>n_user\<close> and \<open>users\<close>.
\<close>

theorem add_twice_counterexample:
  "add_item (snd (add_item init \<lparr>item.index = 42\<rparr>)) \<lparr>item.index = 42\<rparr>
     = (Inr (), \<lparr>n_user = 0, users = fmempty, n_item = 2, items = fmupd 42 fmempty fmempty\<rparr>)
   \<and> add_user (snd (add_user init \<lparr>user.index = 42\<rparr>)) \<lparr>user.index = 42\<rparr>
     = (Inr (), \<lparr>n_user = 2, users = fmupd 42 (fmupd ''observed'' {||} fmempty) fmempty,
                 n_item = 0, items = fmempty\<rparr>)"
  by (simp add: add_item_def add_user_def init_def)

text \<open>
  C5, amended.  \<open>add_item\<close> for an index that is already registered is not rejected: the
  call returns normally, \<open>n_item\<close> is incremented again, the keys of \<open>items\<close> stay the same
  and the record under the index is replaced by an empty record.  \<open>add_user\<close> for a
  registered index does the same to \<open>n_user\<close> and \<open>users\<close>, the record being replaced by
  \<open>{observed: empty set}\<close>.
\<close>

theorem add_registered:
  "(item.index itm |\<in>| fmdom (items self) \<longrightarrow>
      (\<exists>self'. add_item self itm = (Inr (), self')
         \<and> n_item self' = n_item self + 1
         \<and> fmdom (items self') = fmdom (items self)
         \<and> fmlookup (items self') (item.index itm) = Some fmempty))
   \<and> (user.index usr |\<in>| fmdom (users self) \<longrightarrow>
      (\<exists>self'. add_user self usr = (Inr (), self')
         \<and> n_user self' = n_user self + 1
         \<and> fmdom (users self') = fmdom (users self)
         \<and> fmlookup (users self') (user.index usr) = Some (fmupd ''observed'' {||} fmempty)))"
  by (auto simp add: add_item_def add_user_def)

text \<open>The theorem at item 42 added a second time, and at user 7 added a second time.\<close>

theorem add_registered_witness:
  "item.index \<lparr>item.index = 42\<rparr> |\<in>| fmdom (items (snd (add_item init \<lparr>item.index = 42\<rparr>)))
   \<and> add_item (snd (add_item init \<lparr>item.index = 42\<rparr>)) \<lparr>item.index = 42\<rparr>
       = (Inr (), \<lparr>n_user = 0, users = fmempty, n_item = 2, items = fmupd 42 fmempty fmempty\<rparr>)
   \<and> user.index \<lparr>user.index = 7\<rparr> |\<in>| fmdom (users (snd (add_user init \<lparr>user.index = 7\<rparr>)))
   \<and> add_user (snd (add_user init \<lparr>user.index = 7\<rparr>)) \<lparr>user.index = 7\<rparr>
       = (Inr (), \<lparr>n_user = 2, users = fmupd 7 (fmupd ''observed'' {||} fmempty) fmempty,
                   n_item = 0, items = fmempty\<rparr>)"
  using add_registered [where self = "snd (add_item init \<lparr>item.index = 42\<rparr>)"
      and itm = "\<lparr>item.index = 42\<rparr>"]
    add_registered [where self = "snd (add_user init \<lparr>user.index = 7\<rparr>)"
      and usr = "\<lparr>user.index = 7\<rparr>"]
  by (simp add: add_item_def add_user_def init_def)

section \<open>Registry: the counters and the dictionaries\<close>

lemma counts_agree_init: "counts_agree init"
  by (simp add: counts_agree_def init_def)

lemma counts_agree_add_user:
  "counts_agree self \<Longrightarrow> fst (is_new_user self (user.index usr)) = Inr True
     \<Longrightarrow> counts_agree (snd (add_user self usr))"
  by (simp add: counts_agree_def is_new_user_def add_user_def fcard_finsert_disjoint)

lemma counts_agree_add_item:
  "counts_agree self \<Longrightarrow> fst (is_new_item self (item.index itm)) = Inr True
     \<Longrightarrow> counts_agree (snd (add_item self itm))"
  by (simp add: counts_agree_def is_new_item_def add_item_def fcard_finsert_disjoint)

lemma counts_agree_guarded:
  "counts_agree self \<Longrightarrow> guarded argsort self cs \<Longrightarrow> counts_agree (foldl (perform argsort) self cs)"
proof (induction cs arbitrary: self)
  case Nil
  then show ?case by simp
next
  case (Cons c cs)
  have "counts_agree (perform argsort self c) \<and> guarded argsort (perform argsort self c) cs"
  proof (cases c)
    case (Add_user usr)
    with Cons.prems show ?thesis by (simp add: counts_agree_add_user)
  next
    case (Add_item itm)
    with Cons.prems show ?thesis by (simp add: counts_agree_add_item)
  next
    case (Is_new_user u)
    with Cons.prems show ?thesis by (simp add: is_new_user_def)
  next
    case (Is_new_item i)
    with Cons.prems show ?thesis by (simp add: is_new_item_def)
  next
    case (Scores2recos scores target r)
    with Cons.prems show ?thesis by (simp add: snd_scores2recos)
  qed
  with Cons.IH show ?case by simp
qed

text \<open>
  C6, as stated, at user index 42 added twice to the fresh recommender: \<open>n_user\<close> is 2
  while \<open>users\<close> has one key.
\<close>

theorem counts_disagree_counterexample:
  "n_user (snd (add_user (snd (add_user init \<lparr>user.index = 42\<rparr>)) \<lparr>user.index = 42\<rparr>)) = 2
   \<and> fcard (fmdom (users (snd (add_user (snd (add_user init \<lparr>user.index = 42\<rparr>)) \<lparr>user.index = 42\<rparr>)))) = 1
   \<and> \<not> counts_agree (snd (add_user (snd (add_user init \<lparr>user.index = 42\<rparr>)) \<lparr>user.index = 42\<rparr>))"
  by (simp add: counts_agree_def add_user_def init_def fcard_finsert_if fcard_fempty)

text \<open>
  C6, amended.  \<open>n_user = |users|\<close> and \<open>n_item = |items|\<close> hold in the freshly constructed
  state; they are preserved by \<open>is_new_user\<close>, \<open>is_new_item\<close> and \<open>scores2recos\<close>, and by
  \<open>add_user\<close> and \<open>add_item\<close> when the index added is new; so they hold after every history
  of calls in which each entity is added while its index is new.
\<close>

theorem counts_agree_preserved:
  fixes argsort :: "'s::linorder list \<Rightarrow> nat list" and cs :: "'s call list" and scores :: "'s list"
  shows "counts_agree init
       \<and> (counts_agree self \<longrightarrow>
            (fst (is_new_user self (user.index usr)) = Inr True \<longrightarrow> counts_agree (snd (add_user self usr)))
          \<and> (fst (is_new_item self (item.index itm)) = Inr True \<longrightarrow> counts_agree (snd (add_item self itm)))
          \<and> counts_agree (snd (is_new_user self u))
          \<and> counts_agree (snd (is_new_item self i))
          \<and> counts_agree (snd (scores2recos argsort self scores target_i_indices rev')))
       \<and> (guarded argsort init cs \<longrightarrow> counts_agree (run argsort cs))"
proof (intro conjI impI)
  show "counts_agree init" by (rule counts_agree_init)
next
  assume "counts_agree self" "fst (is_new_user self (user.index usr)) = Inr True"
  then show "counts_agree (snd (add_user self usr))" by (rule counts_agree_add_user)
next
  assume "counts_agree self" "fst (is_new_item self (item.index itm)) = Inr True"
  then show "counts_agree (snd (add_item self itm))" by (rule counts_agree_add_item)
next
  assume "counts_agree self"
  then show "counts_agree (snd (is_new_user self u))" by (simp add: is_new_user_def)
next
  assume "counts_agree self"
  then show "counts_agree (snd (is_new_item self i))" by (simp add: is_new_item_def)
next
  assume "counts_agree self"
  then show "counts_agree (snd (scores2recos argsort self scores target_i_indices rev'))"
    by (simp add: snd_scores2recos)
next
  assume "guarded argsort init cs"
  with counts_agree_init show "counts_agree (run argsort cs)"
    unfolding run_def by (rule counts_agree_guarded)
qed

text \<open>
  The theorem in the state with user 1 registered, and at a history of five calls that
  adds users 1 and 2 and item 5, each once.
\<close>

theorem counts_agree_preserved_witness:
  "counts_agree (snd (add_user init \<lparr>user.index = 1\<rparr>))
   \<and> fst (is_new_user (snd (add_user init \<lparr>user.index = 1\<rparr>)) (user.index \<lparr>user.index = 2\<rparr>)) = Inr True
   \<and> counts_agree (snd (add_user (snd (add_user init \<lparr>user.index = 1\<rparr>)) \<lparr>user.index = 2\<rparr>))
   \<and> fst (is_new_item (snd (add_user init \<lparr>user.index = 1\<rparr>)) (item.index \<lparr>item.index = 5\<rparr>)) = Inr True
   \<and> counts_agree (snd (add_item (snd (add_user init \<lparr>user.index = 1\<rparr>)) \<lparr>item.index = 5\<rparr>))
   \<and> guarded stable_argsort init [Add_user \<lparr>user.index = 1\<rparr>, Is_new_user 2, Add_item \<lparr>item.index = 5\<rparr>,
                    Scores2recos [2, 1 :: nat] [5, 5] True, Add_user \<lparr>user.index = 2\<rparr>]
   \<and> counts_agree (run stable_argsort [Add_user \<lparr>user.index = 1\<rparr>, Is_new_user 2, Add_item \<lparr>item.index = 5\<rparr>,
                    Scores2recos [2, 1 :: nat] [5, 5] True, Add_user \<lparr>user.index = 2\<rparr>])"
proof -
  let ?s = "snd (add_user init \<lparr>user.index = 1\<rparr>)"
  let ?cs = "[Add_user \<lparr>user.index = 1\<rparr>, Is_new_user 2, Add_item \<lparr>item.index = 5\<rparr>,
              Scores2recos [2, 1 :: nat] [5, 5] True, Add_user \<lparr>user.index = 2\<rparr>]"
  have before: "counts_agree ?s"
    by (simp add: counts_agree_def add_user_def init_def fcard_finsert_if fcard_fempty)
  have new_user: "fst (is_new_user ?s (user.index \<lparr>user.index = 2\<rparr>)) = Inr True"
    by (simp add: is_new_user_def add_user_def init_def)
  have new_item: "fst (is_new_item ?s (item.index \<lparr>item.index = 5\<rparr>)) = Inr True"
    by (simp add: is_new_item_def add_user_def init_def)
  have history: "guarded stable_argsort init ?cs"
    by (simp add: is_new_user_def is_new_item_def add_user_def add_item_def init_def
          snd_scores2recos)
  show ?thesis
    using before new_user new_item history
      counts_agree_preserved [where argsort = stable_argsort and self = ?s
        and usr = "\<lparr>user.index = 2\<rparr>"
        and itm = "\<lparr>item.index = 5\<rparr>" and cs = ?cs]
    by blast
qed

section \<open>Registry: looking an index up\<close>

lemma users_perform:
  "fmdom (users (perform argsort self c)) =
     (case c of Add_user usr \<Rightarrow> finsert (user.index usr) (fmdom (users self)) | _ \<Rightarrow> fmdom (users self))"
  by (cases c) (simp_all add: add_user_def add_item_def is_new_user_def is_new_item_def snd_scores2recos)

lemma items_perform:
  "fmdom (items (perform argsort self c)) =
     (case c of Add_item itm \<Rightarrow> finsert (item.index itm) (fmdom (items self)) | _ \<Rightarrow> fmdom (items self))"
  by (cases c) (simp_all add: add_user_def add_item_def is_new_user_def is_new_item_def snd_scores2recos)

lemma user_stays_new:
  "u |\<notin>| fmdom (users self) \<Longrightarrow> \<forall>usr. Add_user usr \<in> set cs \<longrightarrow> user.index usr \<noteq> u
     \<Longrightarrow> u |\<notin>| fmdom (users (foldl (perform argsort) self cs))"
proof (induction cs arbitrary: self)
  case Nil
  then show ?case by simp
next
  case (Cons c cs)
  from Cons.prems have "u |\<notin>| fmdom (users (perform argsort self c))"
    by (auto simp add: users_perform split: call.splits)
  moreover from Cons.prems have "\<forall>usr. Add_user usr \<in> set cs \<longrightarrow> user.index usr \<noteq> u"
    by simp
  ultimately show ?case
    using Cons.IH by simp
qed

lemma item_stays_new:
  "i |\<notin>| fmdom (items self) \<Longrightarrow> \<forall>itm. Add_item itm \<in> set cs \<longrightarrow> item.index itm \<noteq> i
     \<Longrightarrow> i |\<notin>| fmdom (items (foldl (perform argsort) self cs))"
proof (induction cs arbitrary: self)
  case Nil
  then show ?case by simp
next
  case (Cons c cs)
  from Cons.prems have "i |\<notin>| fmdom (items (perform argsort self c))"
    by (auto simp add: items_perform split: call.splits)
  moreover from Cons.prems have "\<forall>itm. Add_item itm \<in> set cs \<longrightarrow> item.index itm \<noteq> i"
    by simp
  ultimately show ?case
    using Cons.IH by simp
qed

text \<open>
  C8.  \<open>is_new_user u\<close> answers true after every history of calls that contains no
  \<open>add_user\<close> of a user with index \<open>u\<close>, in particular in the freshly constructed state,
  and answers false right after \<open>add_user\<close> of a user with index \<open>u\<close>; the call leaves the
  state as it was.  \<open>is_new_item\<close> does the same for item indices.
\<close>

theorem is_new_lookup:
  fixes argsort :: "'s::linorder list \<Rightarrow> nat list" and cs :: "'s call list"
  shows "((\<forall>usr. Add_user usr \<in> set cs \<longrightarrow> user.index usr \<noteq> u) \<longrightarrow>
            fst (is_new_user (run argsort cs) u) = Inr True)
       \<and> fst (is_new_user init u) = Inr True
       \<and> fst (is_new_user (snd (add_user self usr)) (user.index usr)) = Inr False
       \<and> snd (is_new_user self u) = self
       \<and> ((\<forall>itm. Add_item itm \<in> set cs \<longrightarrow> item.index itm \<noteq> i) \<longrightarrow>
            fst (is_new_item (run argsort cs) i) = Inr True)
       \<and> fst (is_new_item init i) = Inr True
       \<and> fst (is_new_item (snd (add_item self itm)) (item.index itm)) = Inr False
       \<and> snd (is_new_item self i) = self"
proof (intro conjI impI)
  assume "\<forall>usr. Add_user usr \<in> set cs \<longrightarrow> user.index usr \<noteq> u"
  moreover have "u |\<notin>| fmdom (users init)"
    by (simp add: init_def)
  ultimately have "u |\<notin>| fmdom (users (run argsort cs))"
    unfolding run_def by (rule user_stays_new [rotated])
  then show "fst (is_new_user (run argsort cs) u) = Inr True"
    by (simp add: is_new_user_def)
next
  assume "\<forall>itm. Add_item itm \<in> set cs \<longrightarrow> item.index itm \<noteq> i"
  moreover have "i |\<notin>| fmdom (items init)"
    by (simp add: init_def)
  ultimately have "i |\<notin>| fmdom (items (run argsort cs))"
    unfolding run_def by (rule item_stays_new [rotated])
  then show "fst (is_new_item (run argsort cs) i) = Inr True"
    by (simp add: is_new_item_def)
qed (simp_all add: is_new_user_def is_new_item_def add_user_def add_item_def init_def)

text \<open>
  The theorem at a history that adds user 1 and item 2 only: user index 2 and item index
  1 are still new after it.
\<close>

theorem is_new_lookup_witness:
  "fst (is_new_user (run stable_argsort [Add_user \<lparr>user.index = 1\<rparr>, Add_item \<lparr>item.index = 2\<rparr>,
                          Scores2recos [2, 1 :: nat] [5, 5] True, Is_new_user 2]) 2) = Inr True
   \<and> fst (is_new_user (snd (add_user init \<lparr>user.index = 2\<rparr>)) (user.index \<lparr>user.index = 2\<rparr>))
       = Inr False
   \<and> fst (is_new_item (run stable_argsort [Add_user \<lparr>user.index = 1\<rparr>, Add_item \<lparr>item.index = 2\<rparr>,
                              Scores2recos [2, 1 :: nat] [5, 5] True, Is_new_user 2]) 1) = Inr True
   \<and> fst (is_new_item (snd (add_item init \<lparr>item.index = 1\<rparr>)) (item.index \<lparr>item.index = 1\<rparr>))
       = Inr False"
proof -
  let ?cs = "[Add_user \<lparr>user.index = 1\<rparr>, Add_item \<lparr>item.index = 2\<rparr>,
              Scores2recos [2, 1 :: nat] [5, 5] True, Is_new_user 2]"
  have no_user: "\<forall>usr. Add_user usr \<in> set ?cs \<longrightarrow> user.index usr \<noteq> 2"
    by auto
  have no_item: "\<forall>itm. Add_item itm \<in> set ?cs \<longrightarrow> item.index itm \<noteq> 1"
    by auto
  show ?thesis
    using no_user no_item
      is_new_lookup [where argsort = stable_argsort and cs = ?cs and u = 2 and i = 1 and self = init
        and usr = "\<lparr>user.index = 2\<rparr>" and itm = "\<lparr>item.index = 1\<rparr>"]
    by blast
qed

section \<open>Ranking: what the call leaves untouched\<close>

text \<open>
  C10.  \<open>scores2recos\<close> leaves the recommender state as it was.  On the arrays: every
  array that existed before the call, the two argument arrays among them, holds after the
  call the elements it held before, in the same order; the two arrays returned are new
  ones, and they hold the ranking that \<open>scores2recos\<close> computes from the contents of the
  argument arrays.
\<close>

theorem scores2recos_frame:
  fixes argsort :: "'s::linorder list \<Rightarrow> nat list" and m :: "'s memory"
  assumes "scores < length (float_arrays m)" and "target_i_indices < length (int_arrays m)"
  shows "\<exists>res m'. scores2recos_mem argsort self m scores target_i_indices rev' = (res, self, m')
          \<and> take (length (float_arrays m)) (float_arrays m') = float_arrays m
          \<and> take (length (int_arrays m)) (int_arrays m') = int_arrays m
          \<and> float_arrays m' ! scores = float_arrays m ! scores
          \<and> int_arrays m' ! target_i_indices = int_arrays m ! target_i_indices
          \<and> (\<forall>items_ref scores_ref. res = Inr (items_ref, scores_ref) \<longrightarrow>
                length (int_arrays m) \<le> items_ref \<and> items_ref < length (int_arrays m')
              \<and> length (float_arrays m) \<le> scores_ref \<and> scores_ref < length (float_arrays m'))
          \<and> map_sum id (\<lambda>(items_ref, scores_ref). (int_arrays m' ! items_ref, float_arrays m' ! scores_ref)) res
               = fst (scores2recos argsort self (float_arrays m ! scores) (int_arrays m ! target_i_indices) rev')
          \<and> snd (scores2recos argsort self (float_arrays m ! scores) (int_arrays m ! target_i_indices) rev') = self"
  using assms
  by (simp add: scores2recos_mem_def scores2recos_def new_int_array_def new_float_array_def
        Let_def nth_append split: sum.splits)

text \<open>
  The theorem at a memory that holds the scores \<open>[2, 1, 2]\<close> and the items
  \<open>[4, 5, 6]\<close>: the call appends one array to each pool.
\<close>

theorem scores2recos_frame_witness:
  "(0 :: nat) < length (float_arrays \<lparr>float_arrays = [[2, 1, 2 :: nat]], int_arrays = [[4, 5, 6]]\<rparr>)
   \<and> (0 :: nat) < length (int_arrays \<lparr>float_arrays = [[2, 1, 2 :: nat]], int_arrays = [[4, 5, 6]]\<rparr>)
   \<and> scores2recos_mem stable_argsort init \<lparr>float_arrays = [[2, 1, 2 :: nat]], int_arrays = [[4, 5, 6]]\<rparr> 0 0 False
       = (Inr (1, 1), init,
          \<lparr>float_arrays = [[2, 1, 2], [1, 2, 2]], int_arrays = [[4, 5, 6], [5, 4, 6]]\<rparr>)"
  using scores2recos_frame
    [where argsort = stable_argsort and scores = 0 and target_i_indices = 0 and self = init
       and m = "\<lparr>float_arrays = [[2, 1, 2 :: nat]], int_arrays = [[4, 5, 6]]\<rparr>"
       and rev' = False]
  by (simp add: scores2recos_mem_def stable_argsort_def upt_rec new_int_array_def new_float_array_def)

end
